theory Spec2Isabelle
  imports Main
begin

section \<open>The configuration header of the NRF5340 platform\<close>

text \<open>
  The repository's source is one header,
  \<^verbatim>\<open>port/platform/nordic/nrf53/cfg/u_cfg_app_platform_specific.h\<close>:
  a licence comment, an include guard, one \<^verbatim>\<open>#include "u_runner.h"\<close> and a
  documentation comment. What the header does is what the C preprocessor does with
  its lines, so the development has two parts: the lines of the header, written
  down as they stand in the file, and the directive-execution phase of the C
  preprocessor (translation phase 4) for the directives that occur in include
  guards: \<^verbatim>\<open>#ifdef\<close>, \<^verbatim>\<open>#ifndef\<close>, \<^verbatim>\<open>#else\<close>, \<^verbatim>\<open>#endif\<close>,
  \<^verbatim>\<open>#define\<close>, \<^verbatim>\<open>#undef\<close>, \<^verbatim>\<open>#include\<close>, \<^verbatim>\<open>#error\<close> and lines of text.
  The preprocessor is the language the header is written in; it is modelled after
  the C standard. The file \<^verbatim>\<open>u_runner.h\<close> is not among the sources: its lines,
  and the whole include path, are parameters. Files are taken to consist of the
  lines above; \<^verbatim>\<open>#if\<close> with an expression, \<^verbatim>\<open>#elif\<close>, \<^verbatim>\<open>#line\<close>,
  \<^verbatim>\<open>#pragma\<close> and function-like macros are outside the model.
\<close>

subsection \<open>Lines of a source file\<close>

text \<open>
  A file is the list of its lines after translation phase 3, where every comment has
  become white space. \<open>Comment\<close> is such a line: it holds no token. \<open>Text\<close> is a
  line that is not a directive (declarations, code); it is passed to the output as
  written. Replacing macro names inside text lines is not modelled: the output of
  the model is the text before macro replacement, and the statements below either
  compare the results of two runs or evaluate lines that name no macro. A macro is
  an object-like macro: a name and its replacement list, kept as written.
\<close>

datatype line =
    Comment
  | Text string
  | Ifdef string
  | Ifndef string
  | Else
  | Endif
  | Define string string
  | Undef string
  | Include string
  | Error_line string

subsection \<open>The header\<close>

text \<open>
  Line 17 tests and line 18 defines the guard macro; its replacement list is empty.
\<close>

definition guard :: string where
  "guard = ''_U_CFG_APP_PLATFORM_SPECIFIC_H_''"

text \<open>The header name of line 21.\<close>

definition u_runner_h :: string where
  "u_runner_h = ''u_runner.h''"

text \<open>
  The header, top to bottom: the licence comment (lines 1 to 15), \<^verbatim>\<open>#ifndef\<close>
  (17), \<^verbatim>\<open>#define\<close> (18), a one-line comment (20), \<^verbatim>\<open>#include "u_runner.h"\<close>
  (21), the documentation comment (23 to 27), \<^verbatim>\<open>#endif\<close> (31, followed by a
  comment on the same line) and the closing comment (33). Empty lines are left out.
\<close>

definition u_cfg_app_platform_specific_h :: "line list" where
  "u_cfg_app_platform_specific_h =
     [Comment,
      Ifndef guard,
      Define guard [],
      Comment,
      Include u_runner_h,
      Comment,
      Endif,
      Comment]"

text \<open>The place of the header in the source tree.\<close>

definition header_path :: string where
  "header_path = ''port/platform/nordic/nrf53/cfg/u_cfg_app_platform_specific.h''"

definition source_tree :: "string \<Rightarrow> line list option" where
  "source_tree = Map.empty(header_path \<mapsto> u_cfg_app_platform_specific_h)"

subsection \<open>The preprocessor\<close>

text \<open>
  The macro table maps a defined name to its replacement list. An include
  environment stands for the search of the include path: it maps the header name
  of an \<^verbatim>\<open>#include\<close> directive to the lines of the file found, or to \<open>None\<close>
  when no file is found.
\<close>

type_synonym macros = "string \<Rightarrow> string option"

type_synonym include_env = "string \<Rightarrow> line list option"

datatype pp_error =
    File_not_found string
  | Nesting_too_deep
  | Error_directive string
  | Macro_redefined string
  | Else_without_if
  | Else_after_else
  | Endif_without_if
  | Unterminated_conditional

text \<open>
  One frame for each open conditional group: \<open>on\<close> says that the lines of the
  current branch are processed, \<open>taken\<close> that no later branch of the group may be
  processed (a branch was taken already, or the group lies in skipped lines), and
  \<open>seen_else\<close> that the \<^verbatim>\<open>#else\<close> of the group has been read.
\<close>

datatype frame = Frame (on: bool) (taken: bool) (seen_else: bool)

fun active :: "frame list \<Rightarrow> bool" where
  "active [] = True"
| "active (f # fs) = on f"

definition open_group :: "bool \<Rightarrow> bool \<Rightarrow> frame" where
  "open_group act c = Frame (act \<and> c) (\<not> act \<or> c) False"

text \<open>
  What one line does: it fails, or it goes on to the next line with a new stack of
  conditionals, a new macro table and the text it emits, or it asks for a file to be
  entered. In skipped lines only the conditional directives are looked at. A
  \<^verbatim>\<open>#define\<close> of a defined macro with another replacement list is a constraint
  violation of the C standard and an error here (a compiler may go on with a
  warning); the \<^verbatim>\<open>#define\<close> of the header is only reached with the guard not
  defined.
\<close>

datatype outcome =
    Fail pp_error
  | Next "frame list" macros "string list"
  | Enter string

fun directive :: "line \<Rightarrow> frame list \<Rightarrow> macros \<Rightarrow> outcome" where
  "directive Comment stk M = Next stk M []"
| "directive (Text t) stk M = (if active stk then Next stk M [t] else Next stk M [])"
| "directive (Ifdef n) stk M = Next (open_group (active stk) (M n \<noteq> None) # stk) M []"
| "directive (Ifndef n) stk M = Next (open_group (active stk) (M n = None) # stk) M []"
| "directive Else [] M = Fail Else_without_if"
| "directive Else (f # fs) M =
     (if seen_else f then Fail Else_after_else
      else Next (Frame (\<not> taken f) True True # fs) M [])"
| "directive Endif [] M = Fail Endif_without_if"
| "directive Endif (f # fs) M = Next fs M []"
| "directive (Define n b) stk M =
     (if active stk then
        (case M n of
           None \<Rightarrow> Next stk (M(n \<mapsto> b)) []
         | Some b' \<Rightarrow> if b' = b then Next stk M [] else Fail (Macro_redefined n))
      else Next stk M [])"
| "directive (Undef n) stk M =
     (if active stk then Next stk (M(n := None)) [] else Next stk M [])"
| "directive (Include n) stk M = (if active stk then Enter n else Next stk M [])"
| "directive (Error_line msg) stk M =
     (if active stk then Fail (Error_directive msg) else Next stk M [])"

text \<open>A result is an error, or the macro table at the end and the text emitted.\<close>

type_synonym result = "pp_error + macros \<times> string list"

definition emit_before :: "string list \<Rightarrow> result \<Rightarrow> result" where
  "emit_before out r =
     (case r of Inl e \<Rightarrow> Inl e | Inr (M, out') \<Rightarrow> Inr (M, out @ out'))"

text \<open>
  Processing the lines of a file. \<open>d\<close> is the number of nesting levels of
  \<^verbatim>\<open>#include\<close> still available below the current file (the nesting limit is
  implementation-defined): an \<^verbatim>\<open>#include\<close> at level 0 is an error, which is also
  what ends an inclusion cycle. The conditionals of a file are closed in that file:
  an included file starts with an empty stack of conditionals, and the end of a
  file with a group still open is an error.
\<close>

fun run :: "nat \<Rightarrow> include_env \<Rightarrow> line list \<Rightarrow> frame list \<Rightarrow> macros \<Rightarrow> result" where
  "run d env [] stk M = (if stk = [] then Inr (M, []) else Inl Unterminated_conditional)"
| "run d env (l # ls) stk M =
     (case directive l stk M of
        Fail e \<Rightarrow> Inl e
      | Next stk' M' out \<Rightarrow> emit_before out (run d env ls stk' M')
      | Enter n \<Rightarrow>
          (case d of
             0 \<Rightarrow> Inl Nesting_too_deep
           | Suc d' \<Rightarrow>
               (case env n of
                  None \<Rightarrow> Inl (File_not_found n)
                | Some body \<Rightarrow>
                    (case run d' env body [] M of
                       Inl e \<Rightarrow> Inl e
                     | Inr (M', out) \<Rightarrow> emit_before out (run d env ls stk M')))))"

text \<open>The text a run emits, or its error.\<close>

definition emitted :: "result \<Rightarrow> pp_error + string list" where
  "emitted r = (case r of Inl e \<Rightarrow> Inl e | Inr (M, out) \<Rightarrow> Inr out)"

text \<open>No file of the include environment holds an \<^verbatim>\<open>#undef\<close> of the macro \<open>g\<close>.\<close>

definition never_undefs :: "string \<Rightarrow> include_env \<Rightarrow> bool" where
  "never_undefs g env = (\<forall>n body. env n = Some body \<longrightarrow> Undef g \<notin> set body)"

text \<open>
  Two include environments resolve every header name of \<open>S\<close> to the same lines, and
  the files found under the names of \<open>S\<close> include only headers named in \<open>S\<close>.
\<close>

definition agree_on :: "string set \<Rightarrow> include_env \<Rightarrow> include_env \<Rightarrow> bool" where
  "agree_on S env1 env2 = (\<forall>n\<in>S. env1 n = env2 n)"

definition closed_under_include :: "string set \<Rightarrow> include_env \<Rightarrow> bool" where
  "closed_under_include S env =
     (\<forall>n\<in>S. \<forall>body m. env n = Some body \<longrightarrow> Include m \<in> set body \<longrightarrow> m \<in> S)"

text \<open>
  An include environment in which every \<^verbatim>\<open>#include\<close> of the header named \<open>h\<close>
  has been deleted from every file.
\<close>

definition without_reinclusion :: "string \<Rightarrow> include_env \<Rightarrow> include_env" where
  "without_reinclusion h env = (\<lambda>n. map_option (removeAll (Include h)) (env n))"

subsection \<open>Example files\<close>

text \<open>
  The name under which a translation unit includes the header when the directory
  \<^verbatim>\<open>cfg\<close> is on the include path, and some include environments used as
  concrete inputs below. None of them is part of the repository: \<^verbatim>\<open>u_runner.h\<close>
  is not among the sources, so its lines are a parameter everywhere.
\<close>

definition header_name :: string where
  "header_name = ''u_cfg_app_platform_specific.h''"

definition env_decl :: include_env where
  "env_decl = map_of
     [(header_name, u_cfg_app_platform_specific_h),
      (u_runner_h, [Text ''int runner;''])]"

definition env_error :: include_env where
  "env_error = map_of
     [(header_name, u_cfg_app_platform_specific_h),
      (u_runner_h, [Error_line ''unsupported''])]"

definition env_undef_cycle :: include_env where
  "env_undef_cycle = map_of
     [(header_name, u_cfg_app_platform_specific_h),
      (u_runner_h, [Undef guard, Include header_name])]"

definition env_cycle :: include_env where
  "env_cycle = map_of
     [(header_name, u_cfg_app_platform_specific_h),
      (u_runner_h, [Text ''int a;'', Include header_name, Include ''x.h'', Text ''int b;'']),
      (''x.h'', [Include header_name, Text ''int c;''])]"

definition env_nested :: include_env where
  "env_nested = map_of
     [(u_runner_h, [Text ''int a;'', Include ''x.h'']),
      (''x.h'', [Text ''int c;''])]"

definition env_nested' :: include_env where
  "env_nested' = map_of
     [(u_runner_h, [Text ''int a;'', Include ''x.h'']),
      (''x.h'', [Text ''int c;'']),
      (''y.h'', [Text ''int d;''])]"

definition env_undef_text :: include_env where
  "env_undef_text = map_of
     [(header_name, u_cfg_app_platform_specific_h),
      (u_runner_h, [Undef guard, Text ''int runner;''])]"

definition env_nested_other :: include_env where
  "env_nested_other = map_of
     [(u_runner_h, [Text ''int a;'', Include ''x.h'']),
      (''x.h'', [Text ''int e;''])]"

section \<open>Properties\<close>

subsection \<open>Auxiliary facts\<close>

lemmas example_defs = u_cfg_app_platform_specific_h_def guard_def u_runner_h_def
  header_name_def open_group_def emit_before_def emitted_def

lemma emit_before_Nil [simp]: "emit_before [] r = r"
  by (simp add: emit_before_def split: sum.splits)

lemma header_skipped_Some:
  "M guard = Some b \<Longrightarrow> run d env u_cfg_app_platform_specific_h [] M = Inr (M, [])"
  by (simp add: u_cfg_app_platform_specific_h_def open_group_def)

lemma header_skipped:
  "guard \<in> dom M \<Longrightarrow> run d env u_cfg_app_platform_specific_h [] M = Inr (M, [])"
  by (auto simp: header_skipped_Some)

lemma header_first:
  "M guard = None \<Longrightarrow>
   run (Suc d) env u_cfg_app_platform_specific_h [] M =
     (case env u_runner_h of
        None \<Rightarrow> Inl (File_not_found u_runner_h)
      | Some body \<Rightarrow> run d env body [] (M(guard \<mapsto> [])))"
  by (simp add: u_cfg_app_platform_specific_h_def open_group_def emit_before_def
      split: option.splits sum.splits prod.splits)

lemma directive_keeps:
  "directive l stk M = Next stk' M' out \<Longrightarrow> l \<noteq> Undef g \<Longrightarrow> M g = Some b \<Longrightarrow> M' g = Some b"
  by (cases l; cases stk) (auto split: if_splits option.splits)

lemma emit_before_Inr:
  "emit_before out r = Inr (M, out') \<Longrightarrow> \<exists>o2. r = Inr (M, o2) \<and> out' = out @ o2"
  by (auto simp: emit_before_def split: sum.splits)

lemma guard_persists:
  "run d env ls stk M = Inr (M', out) \<Longrightarrow> M g = Some b \<Longrightarrow>
   \<forall>n body. env n = Some body \<longrightarrow> Undef g \<notin> set body \<Longrightarrow> Undef g \<notin> set ls \<Longrightarrow>
   M' g = Some b"
proof (induction d env ls stk M arbitrary: M' out rule: run.induct)
  case (1 d env stk M)
  then show ?case by (simp split: if_splits)
next
  case (2 d env l ls stk M)
  show ?case
  proof (cases "directive l stk M")
    case (Fail e)
    with "2.prems"(1) show ?thesis by simp
  next
    case (Next stk1 M1 o1)
    with "2.prems"(1) obtain o2 where r: "run d env ls stk1 M1 = Inr (M', o2)"
      by (auto dest: emit_before_Inr)
    from "2.prems" have "l \<noteq> Undef g" by auto
    from directive_keeps[OF Next this] "2.prems" have "M1 g = Some b" by simp
    with "2.IH"(1)[OF Next r] "2.prems" show ?thesis by simp
  next
    case (Enter n)
    with "2.prems"(1) obtain d' where d: "d = Suc d'" by (cases d) auto
    from Enter d "2.prems"(1) obtain body where b: "env n = Some body"
      by (cases "env n") auto
    from Enter d b "2.prems"(1) obtain M1 o1 where r1: "run d' env body [] M = Inr (M1, o1)"
      by (cases "run d' env body [] M") auto
    from Enter d b r1 "2.prems"(1) obtain o2 where r2: "run d env ls stk M1 = Inr (M', o2)"
      by (auto dest: emit_before_Inr)
    have "M1 g = Some b"
      using "2.IH"(2)[OF Enter d b r1] "2.prems" b by blast
    with "2.IH"(3)[OF Enter d b r1 refl r2] "2.prems" show ?thesis by simp
  qed
qed

lemma reinclusion_erased:
  assumes h: "env h = Some u_cfg_app_platform_specific_h"
    and own: "\<forall>n body. env n = Some body \<longrightarrow> Undef guard \<notin> set body"
  shows "M guard = Some b \<Longrightarrow> Undef guard \<notin> set ls \<Longrightarrow>
     run (Suc d) env ls stk M = run (Suc d) env (removeAll (Include h) ls) stk M"
proof (induction ls arbitrary: stk M)
  case Nil
  show ?case by simp
next
  case (Cons l ls)
  from Cons.prems have ls: "Undef guard \<notin> set ls" and l: "l \<noteq> Undef guard" by auto
  show ?case
  proof (cases "l = Include h")
    case True
    have "run (Suc d) env ls stk M = run (Suc d) env (removeAll (Include h) ls) stk M"
      using Cons.prems(1) ls by (rule Cons.IH)
    with True Cons.prems(1) h show ?thesis
      by (simp add: header_skipped_Some)
  next
    case False
    show ?thesis
    proof (cases "directive l stk M")
      case (Fail e)
      with False show ?thesis by simp
    next
      case (Next stk1 M1 o1)
      from directive_keeps[OF Next l Cons.prems(1)] have "M1 guard = Some b" .
      then have "run (Suc d) env ls stk1 M1 = run (Suc d) env (removeAll (Include h) ls) stk1 M1"
        using ls by (rule Cons.IH)
      with Next False show ?thesis by simp
    next
      case (Enter n)
      show ?thesis
      proof (cases "env n")
        case None
        with Enter False show ?thesis by simp
      next
        case (Some body)
        show ?thesis
        proof (cases "run d env body [] M")
          case (Inl e)
          with Enter Some False show ?thesis by simp
        next
          case (Inr p)
          obtain M1 o1 where p: "p = (M1, o1)" by (cases p)
          from Inr p have "run d env body [] M = Inr (M1, o1)" by simp
          from guard_persists[OF this Cons.prems(1) own] own Some
          have "M1 guard = Some b" by blast
          then have "run (Suc d) env ls stk M1 = run (Suc d) env (removeAll (Include h) ls) stk M1"
            using ls by (rule Cons.IH)
          with Enter Some Inr p False show ?thesis by simp
        qed
      qed
    qed
  qed
qed

lemma guarded_cycle_step:
  assumes h: "env h = Some u_cfg_app_platform_specific_h"
    and own: "\<forall>n body. env n = Some body \<longrightarrow> Undef guard \<notin> set body"
    and below: "\<And>d' body M r. d = Suc d' \<Longrightarrow> M guard = Some b \<Longrightarrow> Undef guard \<notin> set body \<Longrightarrow>
       run d' (without_reinclusion h env) (removeAll (Include h) body) [] M = Inr r \<Longrightarrow>
       run (Suc d') env body [] M = Inr r"
  shows "run d (without_reinclusion h env) (removeAll (Include h) ls) stk M = Inr r \<Longrightarrow>
     M guard = Some b \<Longrightarrow> Undef guard \<notin> set ls \<Longrightarrow>
     run (Suc d) env ls stk M = Inr r"
proof (induction ls arbitrary: stk M r)
  case Nil
  then show ?case by simp
next
  case (Cons l ls)
  let ?env = "without_reinclusion h env"
  let ?ls = "removeAll (Include h) ls"
  from Cons.prems have ls: "Undef guard \<notin> set ls" and l: "l \<noteq> Undef guard" by auto
  show ?case
  proof (cases "l = Include h")
    case True
    with Cons.prems(1) have "run d ?env ?ls stk M = Inr r" by simp
    then have "run (Suc d) env ls stk M = Inr r"
      using Cons.prems(2) ls by (rule Cons.IH)
    with True Cons.prems(2) h show ?thesis
      by (simp add: header_skipped_Some)
  next
    case False
    with Cons.prems(1) have run: "run d ?env (l # ?ls) stk M = Inr r" by simp
    show ?thesis
    proof (cases "directive l stk M")
      case (Fail e)
      with run show ?thesis by simp
    next
      case (Next stk1 M1 o1)
      from directive_keeps[OF Next l Cons.prems(2)] have M1: "M1 guard = Some b" .
      obtain M2 o3 where r: "r = (M2, o3)" by (cases r)
      with run Next obtain o2 where r2: "run d ?env ?ls stk1 M1 = Inr (M2, o2)" and o3: "o3 = o1 @ o2"
        by (auto dest: emit_before_Inr)
      have "run (Suc d) env ls stk1 M1 = Inr (M2, o2)"
        using r2 M1 ls by (rule Cons.IH)
      with Next r o3 show ?thesis by (simp add: emit_before_def)
    next
      case (Enter n)
      with run obtain d' where d: "d = Suc d'" by (cases d) auto
      from Enter d run obtain body where b: "env n = Some body"
        by (cases "env n") (auto simp: without_reinclusion_def)
      let ?body = "removeAll (Include h) body"
      from b have b': "?env n = Some ?body" by (simp add: without_reinclusion_def)
      from Enter d b' run obtain M1 o1 where r1: "run d' ?env ?body [] M = Inr (M1, o1)"
        by (cases "run d' ?env ?body [] M") auto
      obtain M2 o3 where r: "r = (M2, o3)" by (cases r)
      from Enter d b' r1 run r obtain o2 where r2: "run d ?env ?ls stk M1 = Inr (M2, o2)"
        and o3: "o3 = o1 @ o2"
        by (auto dest: emit_before_Inr)
      have "run (Suc d') env body [] M = Inr (M1, o1)"
        using d Cons.prems(2) _ r1 by (rule below) (use own b in blast)
      then have r1': "run d env body [] M = Inr (M1, o1)" by (simp add: d)
      from guard_persists[OF r1' Cons.prems(2) own] own b
      have M1: "M1 guard = Some b" by blast
      have "run (Suc d) env ls stk M1 = Inr (M2, o2)"
        using r2 M1 ls by (rule Cons.IH)
      with Enter b r1' r o3 show ?thesis by (simp add: emit_before_def)
    qed
  qed
qed

lemma guarded_cycle:
  assumes h: "env h = Some u_cfg_app_platform_specific_h"
    and own: "\<forall>n body. env n = Some body \<longrightarrow> Undef guard \<notin> set body"
  shows "run d (without_reinclusion h env) (removeAll (Include h) ls) stk M = Inr r \<Longrightarrow>
     M guard = Some b \<Longrightarrow> Undef guard \<notin> set ls \<Longrightarrow>
     run (Suc d) env ls stk M = Inr r"
proof (induction d arbitrary: ls stk M r)
  case 0
  show ?case
    using h own _ "0.prems"
  proof (rule guarded_cycle_step)
    fix d' :: nat and body M r
    assume "0 = Suc d'"
    then show "run (Suc d') env body [] M = Inr r" by simp
  qed
next
  case (Suc d)
  show ?case
    using h own _ Suc.prems
  proof (rule guarded_cycle_step)
    fix d' body M r
    assume "Suc d = Suc d'" and "M guard = Some b" and "Undef guard \<notin> set body"
      and "run d' (without_reinclusion h env) (removeAll (Include h) body) [] M = Inr r"
    then show "run (Suc d') env body [] M = Inr r"
      using Suc.IH[of body "[]" M r] by simp
  qed
qed

lemma run_env_agree:
  "\<forall>m. Include m \<in> set ls \<longrightarrow> m \<in> S \<Longrightarrow>
   \<forall>n\<in>S. env1 n = env2 n \<Longrightarrow>
   \<forall>n\<in>S. \<forall>body m. env1 n = Some body \<longrightarrow> Include m \<in> set body \<longrightarrow> m \<in> S \<Longrightarrow>
   run d env1 ls stk M = run d env2 ls stk M"
proof (induction d env1 ls stk M rule: run.induct)
  case (1 d env stk M)
  show ?case by simp
next
  case (2 d env l ls stk M)
  from "2.prems"(1) have ls: "\<forall>m. Include m \<in> set ls \<longrightarrow> m \<in> S" by simp
  show ?case
  proof (cases "directive l stk M")
    case (Fail e)
    then show ?thesis by simp
  next
    case (Next stk1 M1 o1)
    from "2.IH"(1)[OF Next ls "2.prems"(2,3)] Next show ?thesis by simp
  next
    case (Enter n)
    then have l: "l = Include n" by (cases l; cases stk) (auto split: if_splits option.splits)
    with "2.prems"(1) have n: "n \<in> S" by simp
    with "2.prems"(2) have env2: "env2 n = env n" by simp
    show ?thesis
    proof (cases d)
      case 0
      with Enter show ?thesis by simp
    next
      case (Suc d')
      show ?thesis
      proof (cases "env n")
        case None
        with env2 Enter Suc show ?thesis by simp
      next
        case (Some body)
        from "2.prems"(3) n Some have inc: "\<forall>m. Include m \<in> set body \<longrightarrow> m \<in> S" by blast
        from "2.IH"(2)[OF Enter Suc Some inc "2.prems"(2,3)]
        have eq1: "run d' env body [] M = run d' env2 body [] M" .
        show ?thesis
        proof (cases "run d' env body [] M")
          case (Inl e)
          with eq1 have "run d' env2 body [] M = Inl e" by simp
          with Inl env2 Enter Suc Some show ?thesis by simp
        next
          case (Inr p)
          obtain M1 o1 where p: "p = (M1, o1)" by (cases p)
          from Inr p have r1: "run d' env body [] M = Inr (M1, o1)" by simp
          from "2.IH"(3)[OF Enter Suc Some r1 refl ls "2.prems"(2,3)]
          have eq2: "run d env ls stk M1 = run d env2 ls stk M1" .
          from eq1 r1 have "run d' env2 body [] M = Inr (M1, o1)" by simp
          with eq2 r1 env2 Enter Suc Some show ?thesis by simp
        qed
      qed
    qed
  qed
qed

lemma header_defines_guard:
  assumes r: "run d env u_cfg_app_platform_specific_h [] M = Inr (M1, o1)"
    and own: "\<forall>n body. env n = Some body \<longrightarrow> Undef guard \<notin> set body"
  shows "\<exists>b. M1 guard = Some b"
proof (cases "M guard")
  case (Some b)
  with r show ?thesis by (simp add: header_skipped_Some)
next
  case None
  from r obtain d' where d: "d = Suc d'"
    by (cases d) (auto simp: u_cfg_app_platform_specific_h_def open_group_def None)
  from r d None obtain body where b: "env u_runner_h = Some body"
    by (cases "env u_runner_h") (auto simp: header_first)
  from r d None b have "run d' env body [] (M(guard \<mapsto> [])) = Inr (M1, o1)"
    by (simp add: header_first)
  from guard_persists[OF this _ own] own b have "M1 guard = Some []" by simp
  then show ?thesis by blast
qed

lemma undef_cycle_every_depth:
  "M guard = None \<Longrightarrow>
   run d env_undef_cycle [Include header_name] [] M = Inl Nesting_too_deep"
proof (induction d arbitrary: M rule: less_induct)
  case (less d)
  have h: "env_undef_cycle header_name = Some u_cfg_app_platform_specific_h"
    by (simp add: env_undef_cycle_def example_defs)
  have u: "env_undef_cycle u_runner_h = Some [Undef guard, Include header_name]"
    by (simp add: env_undef_cycle_def example_defs)
  show ?case
  proof (cases d)
    case 0
    then show ?thesis by simp
  next
    case d: (Suc d1)
    have "run d1 env_undef_cycle u_cfg_app_platform_specific_h [] M = Inl Nesting_too_deep"
    proof (cases d1)
      case 0
      with less.prems show ?thesis
        by (simp add: u_cfg_app_platform_specific_h_def open_group_def)
    next
      case (Suc d2)
      with d have "d2 < d" by simp
      then have "run d2 env_undef_cycle [Include header_name] [] (M(guard := None)) =
          Inl Nesting_too_deep"
        by (rule less.IH) simp
      with Suc less.prems u show ?thesis
        by (simp add: header_first)
    qed
    with d h show ?thesis by simp
  qed
qed

subsection \<open>Repeated inclusion\<close>

text \<open>
  Claim C1, as amended, in three parts. Let \<open>h\<close> be a name under which the include
  path finds this header.

  First: an \<^verbatim>\<open>#include\<close> of \<open>h\<close> that is met while the guard macro is
  defined, with one nesting level left, expands to nothing. The lines after it are
  processed exactly as if the directive were not there, wherever it stands.

  Second: let no file of the include environment and none of the lines \<open>rest\<close>
  hold an \<^verbatim>\<open>#undef\<close> of the guard. Then after an \<^verbatim>\<open>#include\<close> of \<open>h\<close> in
  processed lines, with one nesting level left, every \<^verbatim>\<open>#include\<close> of \<open>h\<close>
  among the following lines \<open>rest\<close> of the same file can be deleted without
  changing the result.

  Third: if moreover the guard is not defined at that first \<^verbatim>\<open>#include\<close> and two
  nesting levels are left, the result is the following. It is the error that
  \<^verbatim>\<open>u_runner.h\<close> is not found; or the lines of \<^verbatim>\<open>u_runner.h\<close> are processed
  once, with the guard defined, and the result is their error, or their text
  followed by the result of the lines \<open>rest\<close> without any \<^verbatim>\<open>#include\<close> of
  \<open>h\<close>, processed from the macro table that \<^verbatim>\<open>u_runner.h\<close> leaves.
\<close>

theorem include_guard_idempotent:
  assumes h: "env h = Some u_cfg_app_platform_specific_h"
  shows "(guard \<in> dom M \<longrightarrow>
            run (Suc d) env (Include h # rest) stk M = run (Suc d) env rest stk M) \<and>
         (never_undefs guard env \<and> Undef guard \<notin> set rest \<and> active stk \<longrightarrow>
            run (Suc d) env (Include h # rest) stk M =
            run (Suc d) env (Include h # removeAll (Include h) rest) stk M) \<and>
         (never_undefs guard env \<and> Undef guard \<notin> set rest \<and> active stk \<and> M guard = None \<longrightarrow>
            run (Suc (Suc d)) env (Include h # rest) stk M =
            (case env u_runner_h of
               None \<Rightarrow> Inl (File_not_found u_runner_h)
             | Some body \<Rightarrow>
                 (case run d env body [] (M(guard \<mapsto> [])) of
                    Inl e \<Rightarrow> Inl e
                  | Inr (M1, o1) \<Rightarrow>
                      emit_before o1
                        (run (Suc (Suc d)) env (removeAll (Include h) rest) stk M1))))"
proof -
  have once: "run (Suc n) env (Include h # rest) stk M =
        run (Suc n) env (Include h # removeAll (Include h) rest) stk M"
    if a: "never_undefs guard env \<and> Undef guard \<notin> set rest \<and> active stk" for n
  proof -
    from a have own: "\<forall>n body. env n = Some body \<longrightarrow> Undef guard \<notin> set body"
      by (simp add: never_undefs_def)
    show ?thesis
    proof (cases "run n env u_cfg_app_platform_specific_h [] M")
      case (Inl e)
      with h a show ?thesis by simp
    next
      case (Inr p)
      obtain M1 o1 where p: "p = (M1, o1)" by (cases p)
      with Inr own obtain b where "M1 guard = Some b"
        by (auto dest: header_defines_guard)
      with h a own
      have "run (Suc n) env rest stk M1 = run (Suc n) env (removeAll (Include h) rest) stk M1"
        by (intro reinclusion_erased) auto
      with h a Inr p show ?thesis by simp
    qed
  qed
  show ?thesis
  proof (intro conjI impI)
    assume "guard \<in> dom M"
    with h show "run (Suc d) env (Include h # rest) stk M = run (Suc d) env rest stk M"
      by (simp add: header_skipped)
  next
    assume "never_undefs guard env \<and> Undef guard \<notin> set rest \<and> active stk"
    then show "run (Suc d) env (Include h # rest) stk M =
        run (Suc d) env (Include h # removeAll (Include h) rest) stk M"
      by (rule once)
  next
    assume a: "never_undefs guard env \<and> Undef guard \<notin> set rest \<and> active stk \<and> M guard = None"
    then have "run (Suc (Suc d)) env (Include h # rest) stk M =
        run (Suc (Suc d)) env (Include h # removeAll (Include h) rest) stk M"
      by (intro once) simp
    also from a h have "\<dots> =
            (case env u_runner_h of
               None \<Rightarrow> Inl (File_not_found u_runner_h)
             | Some body \<Rightarrow>
                 (case run d env body [] (M(guard \<mapsto> [])) of
                    Inl e \<Rightarrow> Inl e
                  | Inr (M1, o1) \<Rightarrow>
                      emit_before o1
                        (run (Suc (Suc d)) env (removeAll (Include h) rest) stk M1)))"
      by (simp add: header_first split: option.splits sum.splits)
    finally show "run (Suc (Suc d)) env (Include h # rest) stk M =
            (case env u_runner_h of
               None \<Rightarrow> Inl (File_not_found u_runner_h)
             | Some body \<Rightarrow>
                 (case run d env body [] (M(guard \<mapsto> [])) of
                    Inl e \<Rightarrow> Inl e
                  | Inr (M1, o1) \<Rightarrow>
                      emit_before o1
                        (run (Suc (Suc d)) env (removeAll (Include h) rest) stk M1)))" .
  qed
qed

text \<open>
  The amended claim at a translation unit that includes the header three times,
  starting without the guard, and at one that includes it with the guard defined.
\<close>

theorem include_guard_idempotent_witness:
  "env_decl header_name = Some u_cfg_app_platform_specific_h \<and>
   never_undefs guard env_decl \<and>
   Undef guard \<notin> set [Text ''int a;'', Include header_name, Include header_name] \<and>
   active [] \<and>
   Map.empty guard = (None :: string option) \<and>
   guard \<in> dom (Map.empty(guard \<mapsto> []) :: macros) \<and>
   run 2 env_decl
     [Include header_name, Text ''int a;'', Include header_name, Include header_name]
     [] Map.empty = Inr (Map.empty(guard \<mapsto> []), [''int runner;'', ''int a;'']) \<and>
   run 2 env_decl [Include header_name, Text ''int a;''] [] (Map.empty(guard \<mapsto> [])) =
     Inr (Map.empty(guard \<mapsto> []), [''int a;''])"
proof -
  have h: "env_decl header_name = Some u_cfg_app_platform_specific_h"
    by (simp add: example_defs env_decl_def)
  have own: "never_undefs guard env_decl"
    by (auto simp: never_undefs_def example_defs env_decl_def split: if_splits)
  have rest: "Undef guard \<notin> set [Text ''int a;'', Include header_name, Include header_name]"
    by simp
  have u: "env_decl u_runner_h = Some [Text ''int runner;'']"
    by (simp add: example_defs env_decl_def)
  have tail: "run 2 env_decl [Text ''int a;''] [] (Map.empty(guard \<mapsto> [])) =
      Inr (Map.empty(guard \<mapsto> []), [''int a;''])"
    by (simp add: emit_before_def)
  from include_guard_idempotent[where env = env_decl and h = header_name and M = Map.empty
      and d = 0 and stk = "[]"
      and rest = "[Text ''int a;'', Include header_name, Include header_name]", OF h]
    own rest u tail
  have first: "run 2 env_decl
      [Include header_name, Text ''int a;'', Include header_name, Include header_name]
      [] Map.empty = Inr (Map.empty(guard \<mapsto> []), [''int runner;'', ''int a;''])"
    by (simp add: numeral_2_eq_2 emit_before_def)
  from include_guard_idempotent[where env = env_decl and h = header_name
      and M = "Map.empty(guard \<mapsto> [])" and d = 1 and stk = "[]"
      and rest = "[Text ''int a;'']", OF h] tail
  have second: "run 2 env_decl [Include header_name, Text ''int a;''] []
      (Map.empty(guard \<mapsto> [])) = Inr (Map.empty(guard \<mapsto> []), [''int a;''])"
    by (simp add: numeral_2_eq_2)
  from h own rest first second show ?thesis by simp
qed

text \<open>
  Claim C1 as first stated, for every translation unit, fails where the guard is
  removed between two inclusions: the text of \<^verbatim>\<open>u_runner.h\<close> is emitted twice.
\<close>

theorem include_guard_idempotent_counterexample:
  "emitted (run 2 env_decl [Include header_name, Undef guard, Include header_name]
     [] Map.empty) = Inr [''int runner;'', ''int runner;'']"
  by (simp add: example_defs env_decl_def numeral_2_eq_2)

subsection \<open>Failure\<close>

text \<open>
  Claim C2, as amended. With the guard defined the header is processed without
  error, whether or not \<^verbatim>\<open>u_runner.h\<close> can be found. With the guard not
  defined, and a nesting level left for the \<^verbatim>\<open>#include\<close> of line 21: if
  \<^verbatim>\<open>u_runner.h\<close> is not found, the header fails with the error that the file
  is not found; if it is found, the header succeeds exactly when the lines of
  \<^verbatim>\<open>u_runner.h\<close>, processed with the guard defined, succeed. Every error of
  the header is one of these two: the file not found, or an error raised while
  the lines of \<^verbatim>\<open>u_runner.h\<close> are processed. The header holds no line of
  text, so it passes no code to the compiler: there is nothing in it that could
  handle an error at run time.
\<close>

theorem header_failure_modes:
  "(guard \<in> dom M \<longrightarrow> run d env u_cfg_app_platform_specific_h [] M = Inr (M, [])) \<and>
   (M guard = None \<and> env u_runner_h = None \<longrightarrow>
      run (Suc d) env u_cfg_app_platform_specific_h [] M = Inl (File_not_found u_runner_h)) \<and>
   (M guard = None \<longrightarrow>
      (\<exists>r. run (Suc d) env u_cfg_app_platform_specific_h [] M = Inr r) =
      (\<exists>body r. env u_runner_h = Some body \<and> run d env body [] (M(guard \<mapsto> [])) = Inr r)) \<and>
   (run (Suc d) env u_cfg_app_platform_specific_h [] M = Inl e \<longrightarrow>
      M guard = None \<and>
      (env u_runner_h = None \<and> e = File_not_found u_runner_h \<or>
       (\<exists>body. env u_runner_h = Some body \<and> run d env body [] (M(guard \<mapsto> [])) = Inl e))) \<and>
   [l \<leftarrow> u_cfg_app_platform_specific_h. \<exists>t. l = Text t] = []"
proof (intro conjI impI)
  show "[l \<leftarrow> u_cfg_app_platform_specific_h. \<exists>t. l = Text t] = []"
    by (simp add: u_cfg_app_platform_specific_h_def)
next
  assume "guard \<in> dom M"
  then show "run d env u_cfg_app_platform_specific_h [] M = Inr (M, [])"
    by (rule header_skipped)
next
  assume "M guard = None \<and> env u_runner_h = None"
  then show "run (Suc d) env u_cfg_app_platform_specific_h [] M = Inl (File_not_found u_runner_h)"
    by (simp add: header_first)
next
  assume "M guard = None"
  then show "(\<exists>r. run (Suc d) env u_cfg_app_platform_specific_h [] M = Inr r) =
      (\<exists>body r. env u_runner_h = Some body \<and> run d env body [] (M(guard \<mapsto> [])) = Inr r)"
    by (cases "env u_runner_h") (simp_all add: header_first)
next
  assume e: "run (Suc d) env u_cfg_app_platform_specific_h [] M = Inl e"
  show "M guard = None"
  proof (cases "M guard")
    case (Some b)
    with e show ?thesis by (simp add: header_skipped_Some)
  qed simp
next
  assume e: "run (Suc d) env u_cfg_app_platform_specific_h [] M = Inl e"
  have "M guard = None"
  proof (cases "M guard")
    case (Some b)
    with e show ?thesis by (simp add: header_skipped_Some)
  qed simp
  with e show "env u_runner_h = None \<and> e = File_not_found u_runner_h \<or>
       (\<exists>body. env u_runner_h = Some body \<and> run d env body [] (M(guard \<mapsto> [])) = Inl e)"
    by (cases "env u_runner_h") (simp_all add: header_first)
qed

text \<open>
  The amended claim at three inputs: no file on the include path and the guard not
  defined, a \<^verbatim>\<open>u_runner.h\<close> of one declaration, and the guard defined.
\<close>

theorem header_failure_modes_witness:
  "guard \<in> dom (Map.empty(guard \<mapsto> [])) \<and> Map.empty guard = (None :: string option) \<and>
   (Map.empty :: include_env) u_runner_h = None \<and>
   run 1 Map.empty u_cfg_app_platform_specific_h [] Map.empty =
     Inl (File_not_found u_runner_h) \<and>
   (\<exists>r. run 2 env_decl u_cfg_app_platform_specific_h [] Map.empty = Inr r) \<and>
   run 1 Map.empty u_cfg_app_platform_specific_h [] (Map.empty(guard \<mapsto> [])) =
     Inr (Map.empty(guard \<mapsto> []), [])"
proof -
  have "\<exists>body r. env_decl u_runner_h = Some body \<and>
      run (Suc 0) env_decl body [] (Map.empty(guard \<mapsto> [])) = Inr r"
    by (simp add: example_defs env_decl_def)
  with header_failure_modes[of Map.empty "Suc 0" env_decl Nesting_too_deep]
  have "\<exists>r. run 2 env_decl u_cfg_app_platform_specific_h [] Map.empty = Inr r"
    by (simp add: numeral_2_eq_2)
  moreover from header_failure_modes[of "Map.empty(guard \<mapsto> [])" 1 Map.empty Nesting_too_deep]
  have "run 1 Map.empty u_cfg_app_platform_specific_h [] (Map.empty(guard \<mapsto> [])) =
     Inr (Map.empty(guard \<mapsto> []), [])"
    by simp
  moreover from header_failure_modes[of Map.empty 0 Map.empty Nesting_too_deep]
  have "run 1 Map.empty u_cfg_app_platform_specific_h [] Map.empty =
     Inl (File_not_found u_runner_h)"
    by simp
  ultimately show ?thesis by simp
qed

text \<open>
  Claim C2 as first stated fails in both directions. A \<^verbatim>\<open>u_runner.h\<close> that is
  found and holds an \<^verbatim>\<open>#error\<close> directive makes the header fail; and with
  the guard already defined the header succeeds although \<^verbatim>\<open>u_runner.h\<close> is
  found nowhere.
\<close>

theorem header_failure_modes_counterexample:
  "env_error u_runner_h = Some [Error_line ''unsupported''] \<and>
   run 2 env_error u_cfg_app_platform_specific_h [] Map.empty =
     Inl (Error_directive ''unsupported'') \<and>
   (Map.empty :: include_env) u_runner_h = None \<and>
   emitted (run 2 Map.empty u_cfg_app_platform_specific_h [] (Map.empty(guard \<mapsto> []))) =
     Inr []"
  by (simp add: example_defs env_error_def numeral_2_eq_2)

subsection \<open>What the header provides\<close>

text \<open>
  Claim C3, as amended. Where the header is processed with the guard macro not
  defined, \<^verbatim>\<open>u_runner.h\<close> is found and one nesting level is left, processing
  the header gives exactly what processing the lines of \<^verbatim>\<open>u_runner.h\<close> gives,
  with the guard defined and one nesting level down: the same emitted text and
  macro table at the end, or the same error. So the header makes the contents of
  \<^verbatim>\<open>u_runner.h\<close> available where it is included.
\<close>

theorem header_makes_runner_available:
  assumes "M guard = None" and "env u_runner_h = Some body"
  shows "run (Suc d) env u_cfg_app_platform_specific_h [] M =
           run d env body [] (M(guard \<mapsto> []))"
  using assms by (simp add: header_first)

text \<open>The amended claim at a \<^verbatim>\<open>u_runner.h\<close> of one declaration.\<close>

theorem header_makes_runner_available_witness:
  "Map.empty guard = (None :: string option) \<and>
   env_decl u_runner_h = Some [Text ''int runner;''] \<and>
   run 0 env_decl [Text ''int runner;''] [] (Map.empty(guard \<mapsto> [])) =
     Inr (Map.empty(guard \<mapsto> []), [''int runner;'']) \<and>
   run 1 env_decl u_cfg_app_platform_specific_h [] Map.empty =
     Inr (Map.empty(guard \<mapsto> []), [''int runner;''])"
proof -
  have b: "env_decl u_runner_h = Some [Text ''int runner;'']"
    by (simp add: example_defs env_decl_def)
  have r: "run 0 env_decl [Text ''int runner;''] [] (Map.empty(guard \<mapsto> [])) =
     Inr (Map.empty(guard \<mapsto> []), [''int runner;''])"
    by (simp add: emit_before_def)
  from header_makes_runner_available[where M = Map.empty and env = env_decl and d = 0
      and body = "[Text ''int runner;'']"] b r
  show ?thesis by simp
qed

text \<open>
  Claim C3 as first stated, for every translation unit in which the header's
  content has not been emitted yet, fails where the guard is defined by someone
  else: a translation unit that defines the guard itself and then includes the
  header has emitted nothing of the header before, and gets nothing of
  \<^verbatim>\<open>u_runner.h\<close>.
\<close>

theorem header_makes_runner_available_counterexample:
  "env_decl u_runner_h = Some [Text ''int runner;''] \<and>
   run 2 env_decl [Define guard [], Include header_name] [] Map.empty =
     Inr (Map.empty(guard \<mapsto> []), [])"
  by (simp add: example_defs env_decl_def numeral_2_eq_2)

text \<open>
  Claim C4. Apart from comments the header holds four lines, the include guard
  around one \<^verbatim>\<open>#include\<close>: no line of text (so no declaration and no code
  reaches the output from the header itself), no macro but the guard, no
  \<^verbatim>\<open>#undef\<close>. Processing it does nothing when the guard is defined, and
  otherwise does what the two lines \<^verbatim>\<open>#define\<close> of the guard and
  \<^verbatim>\<open>#include "u_runner.h"\<close> do. So with an empty \<^verbatim>\<open>u_runner.h\<close> nothing is
  emitted and the macro table changes at the guard only.
\<close>

theorem header_frame:
  "[l \<leftarrow> u_cfg_app_platform_specific_h. l \<noteq> Comment] =
     [Ifndef guard, Define guard [], Include u_runner_h, Endif] \<and>
   run d env u_cfg_app_platform_specific_h [] M =
     (if guard \<in> dom M then Inr (M, [])
      else run d env [Define guard [], Include u_runner_h] [] M) \<and>
   (env u_runner_h = Some [] \<longrightarrow>
      run (Suc d) env u_cfg_app_platform_specific_h [] M =
        Inr (if guard \<in> dom M then M else M(guard \<mapsto> []), []))"
proof (intro conjI impI)
  show "[l \<leftarrow> u_cfg_app_platform_specific_h. l \<noteq> Comment] =
     [Ifndef guard, Define guard [], Include u_runner_h, Endif]"
    by (simp add: u_cfg_app_platform_specific_h_def)
next
  show "run d env u_cfg_app_platform_specific_h [] M =
     (if guard \<in> dom M then Inr (M, [])
      else run d env [Define guard [], Include u_runner_h] [] M)"
  proof (cases "M guard")
    case None
    then show ?thesis
      by (cases d)
        (auto simp: u_cfg_app_platform_specific_h_def open_group_def emit_before_def
          split: option.splits sum.splits prod.splits)
  next
    case (Some b)
    then show ?thesis by (auto simp: header_skipped_Some)
  qed
next
  assume "env u_runner_h = Some []"
  then show "run (Suc d) env u_cfg_app_platform_specific_h [] M =
        Inr (if guard \<in> dom M then M else M(guard \<mapsto> []), [])"
    by (cases "M guard") (auto simp: header_skipped_Some header_first)
qed

text \<open>
  Claim C4 at a macro table that holds another macro: it is still there, the guard
  has been added, and nothing has been emitted.
\<close>

theorem header_frame_witness:
  "(Map.empty(u_runner_h \<mapsto> [])) u_runner_h = Some ([] :: line list) \<and>
   run 1 (Map.empty(u_runner_h \<mapsto> [])) u_cfg_app_platform_specific_h []
     (Map.empty(''A'' \<mapsto> ''1'')) =
   Inr (Map.empty(''A'' \<mapsto> ''1'', guard \<mapsto> []), [])"
  using header_frame[of 0 "Map.empty(u_runner_h \<mapsto> [])" "Map.empty(''A'' \<mapsto> ''1'')"]
  by (simp add: guard_def)

text \<open>
  Claim C5. The header lies in the source tree at
  \<^verbatim>\<open>port/platform/nordic/nrf53/cfg/u_cfg_app_platform_specific.h\<close>; the one symbol
  its \<^verbatim>\<open>#ifndef\<close> tests and the one symbol its \<^verbatim>\<open>#define\<close> defines are both
  \<^verbatim>\<open>_U_CFG_APP_PLATFORM_SPECIFIC_H_\<close>; and, read off the behaviour, with an
  empty \<^verbatim>\<open>u_runner.h\<close> the header adds that symbol to the macro table exactly
  when it is not defined yet.
\<close>

theorem header_interface:
  "source_tree ''port/platform/nordic/nrf53/cfg/u_cfg_app_platform_specific.h'' =
     Some u_cfg_app_platform_specific_h \<and>
   [n. Ifndef n \<leftarrow> u_cfg_app_platform_specific_h] = [''_U_CFG_APP_PLATFORM_SPECIFIC_H_''] \<and>
   [n. Define n b \<leftarrow> u_cfg_app_platform_specific_h] = [''_U_CFG_APP_PLATFORM_SPECIFIC_H_''] \<and>
   (env u_runner_h = Some [] \<longrightarrow>
      run (Suc d) env u_cfg_app_platform_specific_h [] M =
        Inr (if M ''_U_CFG_APP_PLATFORM_SPECIFIC_H_'' = None
             then M(''_U_CFG_APP_PLATFORM_SPECIFIC_H_'' \<mapsto> []) else M, []))"
proof (intro conjI impI)
  assume "env u_runner_h = Some []"
  then have "run (Suc d) env u_cfg_app_platform_specific_h [] M =
        Inr (if M guard = None then M(guard \<mapsto> []) else M, [])"
    by (cases "M guard") (auto simp: header_skipped_Some header_first)
  then show "run (Suc d) env u_cfg_app_platform_specific_h [] M =
        Inr (if M ''_U_CFG_APP_PLATFORM_SPECIFIC_H_'' = None
             then M(''_U_CFG_APP_PLATFORM_SPECIFIC_H_'' \<mapsto> []) else M, [])"
    by (simp add: guard_def)
qed (simp_all add: source_tree_def header_path_def u_cfg_app_platform_specific_h_def guard_def)

text \<open>Claim C5 at the empty macro table.\<close>

theorem header_interface_witness:
  "(Map.empty(u_runner_h \<mapsto> [])) u_runner_h = Some ([] :: line list) \<and>
   run 1 (Map.empty(u_runner_h \<mapsto> [])) u_cfg_app_platform_specific_h [] Map.empty =
     Inr (Map.empty(''_U_CFG_APP_PLATFORM_SPECIFIC_H_'' \<mapsto> []), [])"
  using header_interface[of "Map.empty(u_runner_h \<mapsto> [])" 0 Map.empty]
  by simp

subsection \<open>Inclusion cycles\<close>

text \<open>
  Claim C6, as amended. Let the guard be not defined, let \<^verbatim>\<open>u_runner.h\<close> be found
  and let no file of the include environment hold an \<^verbatim>\<open>#undef\<close> of the guard.
  If the lines of \<^verbatim>\<open>u_runner.h\<close>, with every inclusion of this header deleted
  from them and from every other file, are processed with result \<open>r\<close> within \<open>d\<close>
  nesting levels, then the header itself, with all these inclusions in place, is
  processed with the same result \<open>r\<close> within \<open>d + 2\<close> levels. The guard is defined
  before \<^verbatim>\<open>u_runner.h\<close> is entered, so each inclusion of the header from inside
  \<^verbatim>\<open>u_runner.h\<close>, direct or through other files, expands to nothing, and the
  cycle through the header costs one nesting level and no more.
\<close>

theorem guard_breaks_inclusion_cycle:
  assumes h: "env h = Some u_cfg_app_platform_specific_h"
    and u: "env u_runner_h = Some body"
    and own: "never_undefs guard env"
    and M: "M guard = None"
    and r: "run d (without_reinclusion h env) (removeAll (Include h) body) []
              (M(guard \<mapsto> [])) = Inr r"
  shows "run (Suc (Suc d)) env u_cfg_app_platform_specific_h [] M = Inr r"
proof -
  from own have own': "\<forall>n body. env n = Some body \<longrightarrow> Undef guard \<notin> set body"
    by (simp add: never_undefs_def)
  with u have "Undef guard \<notin> set body" by blast
  with guarded_cycle[OF h own' r] have "run (Suc d) env body [] (M(guard \<mapsto> [])) = Inr r"
    by simp
  with M u show ?thesis by (simp add: header_first)
qed

text \<open>
  The amended claim at a \<^verbatim>\<open>u_runner.h\<close> that includes the header directly and
  once more through \<^verbatim>\<open>x.h\<close>.
\<close>

theorem guard_breaks_inclusion_cycle_witness:
  "env_cycle header_name = Some u_cfg_app_platform_specific_h \<and>
   env_cycle u_runner_h =
     Some [Text ''int a;'', Include header_name, Include ''x.h'', Text ''int b;''] \<and>
   never_undefs guard env_cycle \<and>
   Map.empty guard = (None :: string option) \<and>
   run 1 (without_reinclusion header_name env_cycle)
     (removeAll (Include header_name)
        [Text ''int a;'', Include header_name, Include ''x.h'', Text ''int b;''])
     [] (Map.empty(guard \<mapsto> [])) =
     Inr (Map.empty(guard \<mapsto> []), [''int a;'', ''int c;'', ''int b;'']) \<and>
   run 3 env_cycle u_cfg_app_platform_specific_h [] Map.empty =
     Inr (Map.empty(guard \<mapsto> []), [''int a;'', ''int c;'', ''int b;''])"
proof -
  have h: "env_cycle header_name = Some u_cfg_app_platform_specific_h"
    by (simp add: env_cycle_def example_defs)
  have u: "env_cycle u_runner_h =
     Some [Text ''int a;'', Include header_name, Include ''x.h'', Text ''int b;'']"
    by (simp add: env_cycle_def example_defs)
  have own: "never_undefs guard env_cycle"
    by (auto simp: never_undefs_def env_cycle_def example_defs split: if_splits)
  have M: "Map.empty guard = (None :: string option)" by simp
  have r: "run 1 (without_reinclusion header_name env_cycle)
     (removeAll (Include header_name)
        [Text ''int a;'', Include header_name, Include ''x.h'', Text ''int b;''])
     [] (Map.empty(guard \<mapsto> [])) =
     Inr (Map.empty(guard \<mapsto> []), [''int a;'', ''int c;'', ''int b;''])"
    by (simp add: without_reinclusion_def env_cycle_def example_defs)
  from guard_breaks_inclusion_cycle[OF h u own M r] h u own M r
  show ?thesis by (simp add: eval_nat_numeral)
qed

text \<open>
  Claim C6 as first stated fails for a \<^verbatim>\<open>u_runner.h\<close> that removes the guard
  before it includes the header again: the cycle is entered again and again until
  the nesting limit (here 15 levels) stops it.
\<close>

theorem guard_breaks_inclusion_cycle_counterexample:
  "env_undef_cycle u_runner_h = Some [Undef guard, Include header_name] \<and>
   run 15 env_undef_cycle [Include header_name] [] Map.empty = Inl Nesting_too_deep"
  by (simp add: env_undef_cycle_def example_defs eval_nat_numeral)

subsection \<open>The guard stays defined\<close>

text \<open>
  Claim C7, as amended, in five parts.

  First: the header holds no \<^verbatim>\<open>#undef\<close> of the guard.

  Second: each line of the header, met with the guard defined, does one of three
  things. It is an error; or it goes on with the guard still defined and emits
  nothing; or it is the \<^verbatim>\<open>#include\<close> of line 21 in processed lines, which asks
  for \<^verbatim>\<open>u_runner.h\<close> to be entered. What the lines of \<^verbatim>\<open>u_runner.h\<close> then do
  to the guard is not decided by the header.

  Third: a pass over the header with the guard defined changes nothing and emits
  nothing.

  Fourth: in a run of any lines \<open>ls\<close>, where no file of the include environment
  and none of the lines \<open>ls\<close> holds an \<^verbatim>\<open>#undef\<close> of the guard, a guard defined
  at the start is defined at the end.

  Fifth: the predicate "guard defined implies header content already emitted" is
  preserved by every pass over the header, whatever \<^verbatim>\<open>u_runner.h\<close> holds. Here
  \<open>C\<close> is any property of the macro table and of the text emitted so far that
  holds once lines 18 and 21 of the header, the \<^verbatim>\<open>#define\<close> of the guard and the
  \<^verbatim>\<open>#include\<close> of \<^verbatim>\<open>u_runner.h\<close>, have been processed at this point. If the
  guard being defined implies \<open>C\<close> before the pass, it does so after the pass.
\<close>

theorem guard_never_undefined_by_header:
  "Undef guard \<notin> set u_cfg_app_platform_specific_h \<and>
   (\<forall>l\<in>set u_cfg_app_platform_specific_h. \<forall>stk.
      guard \<in> dom M \<longrightarrow>
      (case directive l stk M of
         Fail e \<Rightarrow> True
       | Next stk1 M1 out \<Rightarrow> guard \<in> dom M1 \<and> out = []
       | Enter n \<Rightarrow> l = Include u_runner_h)) \<and>
   (guard \<in> dom M \<longrightarrow> run d env u_cfg_app_platform_specific_h [] M = Inr (M, [])) \<and>
   (never_undefs guard env \<and> Undef guard \<notin> set ls \<and> guard \<in> dom M \<and>
      run d env ls stk M = Inr (M', out) \<longrightarrow> guard \<in> dom M') \<and>
   ((guard \<in> dom M \<longrightarrow> C M out0) \<and>
    (\<forall>M1 o1. run d env [Define guard [], Include u_runner_h] [] M = Inr (M1, o1) \<longrightarrow>
       C M1 (out0 @ o1)) \<and>
    run d env u_cfg_app_platform_specific_h [] M = Inr (M2, o2) \<longrightarrow>
      (guard \<in> dom M2 \<longrightarrow> C M2 (out0 @ o2)))"
proof (intro conjI)
  show "Undef guard \<notin> set u_cfg_app_platform_specific_h"
    by (simp add: u_cfg_app_platform_specific_h_def)
next
  show "\<forall>l\<in>set u_cfg_app_platform_specific_h. \<forall>stk.
      guard \<in> dom M \<longrightarrow>
      (case directive l stk M of
         Fail e \<Rightarrow> True
       | Next stk1 M1 out \<Rightarrow> guard \<in> dom M1 \<and> out = []
       | Enter n \<Rightarrow> l = Include u_runner_h)"
  proof (intro ballI allI impI)
    fix l stk
    assume l: "l \<in> set u_cfg_app_platform_specific_h" and g: "guard \<in> dom M"
    from g obtain b where b: "M guard = Some b" by auto
    from l b show "case directive l stk M of
         Fail e \<Rightarrow> True
       | Next stk1 M1 out \<Rightarrow> guard \<in> dom M1 \<and> out = []
       | Enter n \<Rightarrow> l = Include u_runner_h"
      by (cases stk) (auto simp: u_cfg_app_platform_specific_h_def)
  qed
next
  show "guard \<in> dom M \<longrightarrow> run d env u_cfg_app_platform_specific_h [] M = Inr (M, [])"
    by (simp add: header_skipped)
next
  show "never_undefs guard env \<and> Undef guard \<notin> set ls \<and> guard \<in> dom M \<and>
      run d env ls stk M = Inr (M', out) \<longrightarrow> guard \<in> dom M'"
  proof
    assume a: "never_undefs guard env \<and> Undef guard \<notin> set ls \<and> guard \<in> dom M \<and>
      run d env ls stk M = Inr (M', out)"
    then obtain b where b: "M guard = Some b" by auto
    from a have own: "\<forall>n body. env n = Some body \<longrightarrow> Undef guard \<notin> set body"
      by (simp add: never_undefs_def)
    from a have r: "run d env ls stk M = Inr (M', out)" and ls: "Undef guard \<notin> set ls"
      by simp_all
    from guard_persists[OF r b own ls] show "guard \<in> dom M'" by auto
  qed
next
  show "(guard \<in> dom M \<longrightarrow> C M out0) \<and>
    (\<forall>M1 o1. run d env [Define guard [], Include u_runner_h] [] M = Inr (M1, o1) \<longrightarrow>
       C M1 (out0 @ o1)) \<and>
    run d env u_cfg_app_platform_specific_h [] M = Inr (M2, o2) \<longrightarrow>
      (guard \<in> dom M2 \<longrightarrow> C M2 (out0 @ o2))"
  proof (intro impI)
    assume a: "(guard \<in> dom M \<longrightarrow> C M out0) \<and>
      (\<forall>M1 o1. run d env [Define guard [], Include u_runner_h] [] M = Inr (M1, o1) \<longrightarrow>
         C M1 (out0 @ o1)) \<and>
      run d env u_cfg_app_platform_specific_h [] M = Inr (M2, o2)"
    show "C M2 (out0 @ o2)"
    proof (cases "M guard")
      case (Some b)
      with a have "M2 = M" and "o2 = []" by (simp_all add: header_skipped_Some)
      moreover from a Some have "C M out0" by (simp add: domIff)
      ultimately show ?thesis by simp
    next
      case None
      have "run d env u_cfg_app_platform_specific_h [] M =
          run d env [Define guard [], Include u_runner_h] [] M"
        using None
        by (cases d)
          (auto simp: u_cfg_app_platform_specific_h_def open_group_def emit_before_def
            split: option.splits sum.splits prod.splits)
      with a show ?thesis by simp
    qed
  qed
qed

text \<open>
  The amended claim at the macro table that holds the guard only, and at the empty
  macro table with "the declaration of \<^verbatim>\<open>u_runner.h\<close> is in the output" for \<open>C\<close>.
\<close>

theorem guard_never_undefined_by_header_witness:
  "guard \<in> dom (Map.empty(guard \<mapsto> []) :: macros) \<and>
   Include u_runner_h \<in> set u_cfg_app_platform_specific_h \<and>
   directive (Include u_runner_h) [] (Map.empty(guard \<mapsto> [])) = Enter u_runner_h \<and>
   never_undefs guard env_decl \<and>
   Undef guard \<notin> set [Include header_name, Text ''int a;''] \<and>
   run 1 env_decl u_cfg_app_platform_specific_h [] (Map.empty(guard \<mapsto> [])) =
     Inr (Map.empty(guard \<mapsto> []), []) \<and>
   run 1 env_decl [Include header_name, Text ''int a;''] [] (Map.empty(guard \<mapsto> [])) =
     Inr (Map.empty(guard \<mapsto> []), [''int a;'']) \<and>
   run 1 env_decl u_cfg_app_platform_specific_h [] Map.empty =
     Inr (Map.empty(guard \<mapsto> []), [''int runner;'']) \<and>
   ''int runner;'' \<in> set ([''int a;''] @ [''int runner;''])"
proof -
  have own: "never_undefs guard env_decl"
    by (auto simp: never_undefs_def env_decl_def example_defs split: if_splits)
  have run: "run 1 env_decl [Include header_name, Text ''int a;''] [] (Map.empty(guard \<mapsto> [])) =
     Inr (Map.empty(guard \<mapsto> []), [''int a;''])"
    by (simp add: env_decl_def example_defs)
  have first: "run 1 env_decl u_cfg_app_platform_specific_h [] Map.empty =
     Inr (Map.empty(guard \<mapsto> []), [''int runner;''])"
    by (simp add: env_decl_def example_defs)
  have content: "\<forall>M1 o1. run 1 env_decl [Define guard [], Include u_runner_h] [] Map.empty =
      Inr (M1, o1) \<longrightarrow> ''int runner;'' \<in> set ([''int a;''] @ o1)"
    by (simp add: env_decl_def example_defs)
  note at_input = guard_never_undefined_by_header[of "Map.empty(guard \<mapsto> [])" 1 env_decl
      "[Include header_name, Text ''int a;'']" "[]" "Map.empty(guard \<mapsto> [])" "[''int a;'']"
      "\<lambda>M out. ''int runner;'' \<in> set out" "[''int runner;'']"
      "Map.empty(guard \<mapsto> [])" "[]"]
  from at_input
  have pass: "run 1 env_decl u_cfg_app_platform_specific_h [] (Map.empty(guard \<mapsto> [])) =
     Inr (Map.empty(guard \<mapsto> []), [])"
    by simp
  from at_input own run
  have kept: "guard \<in> dom (Map.empty(guard \<mapsto> []) :: macros)"
    by simp
  from guard_never_undefined_by_header[of Map.empty 1 env_decl
      "[]" "[]" Map.empty "[]"
      "\<lambda>M out. ''int runner;'' \<in> set out" "[''int a;'']"
      "Map.empty(guard \<mapsto> [])" "[''int runner;'']"] content first
  have inv: "''int runner;'' \<in> set ([''int a;''] @ [''int runner;''])"
    by simp
  from pass kept inv own run first show ?thesis
    by (simp add: u_cfg_app_platform_specific_h_def)
qed

text \<open>
  Claim C7 as first stated, that the macro remains defined for the remainder of the
  translation unit, fails for a \<^verbatim>\<open>u_runner.h\<close> that holds an \<^verbatim>\<open>#undef\<close> of
  the guard: line 18 defines the guard, and at the end of the same pass over the
  header it is not defined, nor in the lines that follow the inclusion.
\<close>

theorem guard_never_undefined_by_header_counterexample:
  "env_undef_text u_runner_h = Some [Undef guard, Text ''int runner;''] \<and>
   run 1 env_undef_text u_cfg_app_platform_specific_h [] Map.empty =
     Inr (Map.empty, [''int runner;'']) \<and>
   emitted (run 2 env_undef_text
     [Include header_name, Ifdef guard, Text ''guard defined'', Endif] [] Map.empty) =
     Inr [''int runner;'']"
  by (simp add: example_defs env_undef_text_def numeral_2_eq_2)

subsection \<open>Determinism\<close>

text \<open>
  Claim C8, as amended. The result of processing the header is a function of the
  macro table, the nesting level and of what the include path resolves
  \<^verbatim>\<open>u_runner.h\<close> and every header included from it, directly or through other
  files, to. Two runs from the same macro table, with the same number of nesting
  levels left, in two include environments that agree on a set of header names
  that holds \<^verbatim>\<open>u_runner.h\<close> and every name included from the files found for
  these names, give the same result: the same error, or the same macro table and
  emitted text.
\<close>

theorem header_deterministic:
  assumes "u_runner_h \<in> S" and "agree_on S env1 env2" and "closed_under_include S env1"
  shows "run d env1 u_cfg_app_platform_specific_h [] M =
         run d env2 u_cfg_app_platform_specific_h [] M"
proof (rule run_env_agree)
  from assms(1) show "\<forall>m. Include m \<in> set u_cfg_app_platform_specific_h \<longrightarrow> m \<in> S"
    by (simp add: u_cfg_app_platform_specific_h_def)
  from assms(2) show "\<forall>n\<in>S. env1 n = env2 n" by (simp add: agree_on_def)
  from assms(3) show "\<forall>n\<in>S. \<forall>body m. env1 n = Some body \<longrightarrow> Include m \<in> set body \<longrightarrow> m \<in> S"
    by (simp add: closed_under_include_def)
qed

text \<open>
  The amended claim at two include environments that differ outside what
  \<^verbatim>\<open>u_runner.h\<close> includes.
\<close>

theorem header_deterministic_witness:
  "u_runner_h \<in> {u_runner_h, ''x.h''} \<and>
   agree_on {u_runner_h, ''x.h''} env_nested env_nested' \<and>
   closed_under_include {u_runner_h, ''x.h''} env_nested \<and>
   env_nested ''y.h'' \<noteq> env_nested' ''y.h'' \<and>
   emitted (run 2 env_nested u_cfg_app_platform_specific_h [] Map.empty) =
     Inr [''int a;'', ''int c;''] \<and>
   emitted (run 2 env_nested' u_cfg_app_platform_specific_h [] Map.empty) =
     Inr [''int a;'', ''int c;'']"
proof -
  have S: "u_runner_h \<in> {u_runner_h, ''x.h''}" by simp
  have agree: "agree_on {u_runner_h, ''x.h''} env_nested env_nested'"
    by (simp add: agree_on_def env_nested_def env_nested'_def example_defs)
  have closed: "closed_under_include {u_runner_h, ''x.h''} env_nested"
    by (auto simp: closed_under_include_def env_nested_def example_defs)
  have differ: "env_nested ''y.h'' \<noteq> env_nested' ''y.h''"
    by (simp add: env_nested_def env_nested'_def example_defs)
  have one: "emitted (run 2 env_nested u_cfg_app_platform_specific_h [] Map.empty) =
     Inr [''int a;'', ''int c;'']"
    by (simp add: env_nested_def example_defs eval_nat_numeral)
  from header_deterministic[OF S agree closed, of 2 Map.empty] one
  have "emitted (run 2 env_nested' u_cfg_app_platform_specific_h [] Map.empty) =
     Inr [''int a;'', ''int c;'']"
    by simp
  with S agree closed differ one show ?thesis by simp
qed

text \<open>
  Claim C8 as first stated, from the same macro table and the same lines of
  \<^verbatim>\<open>u_runner.h\<close> alone, fails: two include environments with the same
  \<^verbatim>\<open>u_runner.h\<close> that resolve the \<^verbatim>\<open>x.h\<close> it includes differently give
  different text, and the same environment with one nesting level less gives an
  error.
\<close>

theorem header_deterministic_counterexample:
  "env_nested u_runner_h = env_nested_other u_runner_h \<and>
   emitted (run 2 env_nested u_cfg_app_platform_specific_h [] Map.empty) =
     Inr [''int a;'', ''int c;''] \<and>
   emitted (run 2 env_nested_other u_cfg_app_platform_specific_h [] Map.empty) =
     Inr [''int a;'', ''int e;''] \<and>
   emitted (run 1 env_nested u_cfg_app_platform_specific_h [] Map.empty) =
     Inl Nesting_too_deep"
  by (simp add: example_defs env_nested_def env_nested_other_def numeral_2_eq_2)

end
